theory Spec2Isabelle
  imports Main "HOL-Library.AList"
begin

section \<open>Data model\<close>

text \<open>
  A configuration tree as the Python code sees it after a JSON document has been
  loaded: a scalar (\<open>None\<close>, a bool, a number, a string), a \<open>dict\<close> with string keys, or
  a \<open>list\<close>. A \<open>dict\<close> is an association list in insertion order, since the loops of
  \<open>inherit.py\<close> iterate \<open>data.items()\<close> in that order; a Python \<open>dict\<close> never holds a key
  twice, so the inputs of interest have distinct keys.
\<close>

datatype scalar = PyNone | PyBool bool | PyInt int | PyStr string

datatype node =
    Scalar scalar
  | Mapping "(string \<times> node) list"
  | Sequence "node list"

text \<open>
  The exceptions the two functions can raise. \<open>TypeError\<close> is raised either by
  \<open>make_type_error\<close>, with the three arguments of its message template, or by the
  interpreter itself when a non-\<open>dict\<close> list element is subscripted with a string key.
  \<open>AttributeError\<close> is what \<open>.items()\<close> raises on a value that is not a \<open>dict\<close>.
\<close>

datatype type_error_detail =
    NotDictOrList string string string
  | NotSubscriptable

datatype error =
    ValueError
  | TypeError type_error_detail
  | KeyError string
  | AttributeError

text \<open>
  Both functions mutate their argument in place and return nothing. The model returns
  the argument as it stands when the call ends: \<open>Returned\<close> after a normal return,
  \<open>Raised\<close> with the exception when the call was left by a \<open>raise\<close>.
\<close>

datatype outcome = Returned node | Raised error node

fun state_of :: "outcome \<Rightarrow> node" where
  "state_of (Returned n) = n"
| "state_of (Raised e n) = n"

fun returned :: "outcome \<Rightarrow> bool" where
  "returned (Returned n) = True"
| "returned (Raised e n) = False"

definition SHARED :: string where
  "SHARED = ''_shared''"

section \<open>String operations on JSON paths\<close>

text \<open>\<open>path.endswith("*")\<close>, \<open>path.split(".")\<close> and \<open>".".join(parts)\<close>.\<close>

definition endswith_star :: "string \<Rightarrow> bool" where
  "endswith_star path = (path \<noteq> [] \<and> last path = CHR ''*'')"

fun split_dot :: "string \<Rightarrow> string list" where
  "split_dot [] = [[]]"
| "split_dot (c # cs) =
     (if c = CHR ''.'' then [] # split_dot cs
      else (c # hd (split_dot cs)) # tl (split_dot cs))"

fun join_dot :: "string list \<Rightarrow> string" where
  "join_dot [] = []"
| "join_dot [p] = p"
| "join_dot (p # q # ps) = p @ ''.'' @ join_dot (q # ps)"

lemma split_dot_not_Nil: "split_dot s \<noteq> []"
  by (induction s) auto

lemma join_split_dot: "join_dot (split_dot s) = s"
proof (induction s)
  case Nil
  show ?case by simp
next
  case (Cons c cs)
  obtain p ps where sp: "split_dot cs = p # ps"
    using split_dot_not_Nil [of cs] by (cases "split_dot cs") auto
  show ?case
  proof (cases "c = CHR ''.''")
    case True
    with Cons sp show ?thesis by simp
  next
    case False
    with Cons sp show ?thesis by (cases ps) auto
  qed
qed

lemma length_join_tl:
  assumes "split_dot s = p # q # qs"
  shows "length (join_dot (q # qs)) < length s"
proof -
  have "s = join_dot (p # q # qs)"
    using join_split_dot [of s] assms by simp
  then show ?thesis by simp
qed

lemma join_tl_shorter:
  assumes "length (split_dot s) \<noteq> Suc 0"
  shows "length (join_dot (tl (split_dot s))) < length s"
proof -
  obtain p ps where sp: "split_dot s = p # ps"
    using split_dot_not_Nil [of s] by (cases "split_dot s") auto
  with assms obtain q qs where "ps = q # qs" by (cases ps) auto
  with sp length_join_tl [of s p q qs] show ?thesis by simp
qed

section \<open>The operations of \<open>dict\<close> that the code uses\<close>

text \<open>
  \<open>d.setdefault(k, v)\<close> stores \<open>v\<close> under \<open>k\<close> only when \<open>k\<close> is not a key of \<open>d\<close>; a new
  key goes to the end of the insertion order. \<open>d[k]\<close> is \<open>map_of d k\<close>, with \<open>None\<close> for the
  \<open>KeyError\<close>; a child mutated in place is written back with \<open>AList.update\<close>, which keeps
  its position; \<open>d.pop(k)\<close> is \<open>AList.delete\<close>.
\<close>

definition setdefault :: "(string \<times> node) list \<Rightarrow> string \<Rightarrow> node \<Rightarrow> (string \<times> node) list" where
  "setdefault d k v = (if k \<in> fst ` set d then d else d @ [(k, v)])"

definition make_type_error :: "string \<Rightarrow> string \<Rightarrow> error" where
  "make_type_error prefix key =
     TypeError (NotDictOrList (if prefix = [] then ''.'' else prefix) prefix key)"

section \<open>\<open>inherit_value\<close>\<close>

text \<open>
  The loop of the one-segment case over a list:
  \<^verbatim>\<open>for item in data:
    if not isinstance(item, dict): raise make_type_error(_prefix, parts[0])
    item.setdefault(parts[0], value)\<close>
  It returns the exception, if any, and the list as the loop left it.
\<close>

fun setdefault_items :: "string \<Rightarrow> node \<Rightarrow> string \<Rightarrow> node list \<Rightarrow> error option \<times> node list" where
  "setdefault_items key val prefix [] = (None, [])"
| "setdefault_items key val prefix (item # items) =
     (case item of
        Mapping d \<Rightarrow>
          (case setdefault_items key val prefix items of
             (e, items') \<Rightarrow> (e, Mapping (setdefault d key val) # items'))
      | _ \<Rightarrow> (Some (make_type_error prefix key), item # items))"

text \<open>
  \<open>inherit_value\<close> with its two recursive loops: \<open>inherit_star\<close> is the loop over
  \<open>data.items()\<close> of the wildcard branch (its \<open>path\<close> and \<open>prefix\<close> are the arguments of the
  recursive call), \<open>inherit_list\<close> the loop over the elements of a list in the branch of
  a literal key.
\<close>

function inherit_value :: "string \<Rightarrow> node \<Rightarrow> node \<Rightarrow> string option \<Rightarrow> outcome"
  and inherit_star :: "string \<Rightarrow> node \<Rightarrow> (string \<times> node) list \<Rightarrow> string
        \<Rightarrow> error option \<times> (string \<times> node) list"
  and inherit_list :: "string \<Rightarrow> string \<Rightarrow> node \<Rightarrow> node list \<Rightarrow> string
        \<Rightarrow> error option \<times> node list"
where
  "inherit_value path val data opt_prefix =
     (if endswith_star path then Raised ValueError data
      else
        let prefix = (case opt_prefix of None \<Rightarrow> [] | Some p \<Rightarrow> p);
            parts = split_dot path
        in
          if length parts = 1 then
            (case data of
               Mapping d \<Rightarrow> Returned (Mapping (setdefault d (hd parts) val))
             | Sequence items \<Rightarrow>
                 (case setdefault_items (hd parts) val prefix items of
                    (None, items') \<Rightarrow> Returned (Sequence items')
                  | (Some e, items') \<Rightarrow> Raised e (Sequence items'))
             | Scalar s \<Rightarrow> Raised (make_type_error prefix (hd parts)) data)
          else
            let key = hd parts in
              if key = ''*'' then
                (case data of
                   Mapping d \<Rightarrow>
                     (case inherit_star (join_dot (tl parts)) val d (prefix @ ''.'' @ key) of
                        (None, d') \<Rightarrow> Returned (Mapping d')
                      | (Some e, d') \<Rightarrow> Raised e (Mapping d'))
                 | _ \<Rightarrow> Raised AttributeError data)
              else
                (case data of
                   Mapping d \<Rightarrow>
                     (case map_of d key of
                        None \<Rightarrow> Raised (KeyError key) data
                      | Some child \<Rightarrow>
                          (case inherit_value (join_dot (tl parts)) val child
                                  (Some (prefix @ ''.'' @ key)) of
                             Returned child' \<Rightarrow> Returned (Mapping (AList.update key child' d))
                           | Raised e child' \<Rightarrow> Raised e (Mapping (AList.update key child' d))))
                 | Sequence items \<Rightarrow>
                     (case inherit_list (join_dot (tl parts)) key val items
                             (prefix @ ''.'' @ key) of
                        (None, items') \<Rightarrow> Returned (Sequence items')
                      | (Some e, items') \<Rightarrow> Raised e (Sequence items'))
                 | Scalar s \<Rightarrow> Raised (make_type_error prefix key) data))"
| "inherit_star path val [] prefix = (None, [])"
| "inherit_star path val ((k, v) # rest) prefix =
     (if k \<noteq> SHARED then
        (case inherit_value path val v (Some prefix) of
           Returned v' \<Rightarrow>
             (case inherit_star path val rest prefix of (e, rest') \<Rightarrow> (e, (k, v') # rest'))
         | Raised e v' \<Rightarrow> (Some e, (k, v') # rest))
      else
        (case inherit_star path val rest prefix of (e, rest') \<Rightarrow> (e, (k, v) # rest')))"
| "inherit_list path key val [] prefix = (None, [])"
| "inherit_list path key val (item # items) prefix =
     (case item of
        Mapping d \<Rightarrow>
          (case map_of d key of
             None \<Rightarrow> (Some (KeyError key), item # items)
           | Some child \<Rightarrow>
               (case inherit_value path val child (Some prefix) of
                  Returned child' \<Rightarrow>
                    (case inherit_list path key val items prefix of
                       (e, items') \<Rightarrow> (e, Mapping (AList.update key child' d) # items'))
                | Raised e child' \<Rightarrow>
                    (Some e, Mapping (AList.update key child' d) # items)))
      | _ \<Rightarrow> (Some (TypeError NotSubscriptable), item # items))"
  by pat_completeness auto
termination
  by (relation "inv_image (less_than <*lex*> less_than) (\<lambda>x. case x of
         Inl (path, val, data, p) \<Rightarrow> (length path, 0)
       | Inr (Inl (path, val, d, p)) \<Rightarrow> (length path, 1 + length d)
       | Inr (Inr (path, key, val, items, p)) \<Rightarrow> (length path, 1 + length items))")
    (auto simp: join_tl_shorter)

declare inherit_value.simps [simp del]

section \<open>\<open>apply_inheritance\<close>\<close>

text \<open>
  The loop that applies a popped \<open>_shared\<close> section to \<open>data\<close>:
  \<^verbatim>\<open>for path, value in shared_data.items():
    inherit_value(path=path, value=value, data=data)\<close>

  The trees are values here, as the nodes of the specification are. Python stores the
  default object itself at every target, so a \<open>dict\<close> or \<open>list\<close> default that fills several
  targets is one object seen from all of them; the model stores an equal value at each.
  The two agree as long as no later path writes inside such a default through one of
  its targets; a single call of \<open>inherit_value\<close> on a tree never does, and neither does
  a section whose defaults are scalars.
\<close>

fun apply_shared :: "(string \<times> node) list \<Rightarrow> node \<Rightarrow> outcome" where
  "apply_shared [] data = Returned data"
| "apply_shared ((path, val) # rest) data =
     (case inherit_value path val data None of
        Returned data' \<Rightarrow> apply_shared rest data'
      | Raised e data' \<Rightarrow> Raised e data')"

text \<open>
  The second half of \<open>apply_inheritance\<close>, after the recursion over the children: nothing
  when \<open>data\<close> has no \<open>_shared\<close> key; otherwise the section is popped and applied.
  \<open>shared_data.items()\<close> raises \<open>AttributeError\<close> when the popped value is not a \<open>dict\<close>.
\<close>

definition expand_shared :: "(string \<times> node) list \<Rightarrow> outcome" where
  "expand_shared data =
     (case map_of data SHARED of
        None \<Rightarrow> Returned (Mapping data)
      | Some shared_data \<Rightarrow>
          (case shared_data of
             Mapping sd \<Rightarrow> apply_shared sd (Mapping (AList.delete SHARED data))
           | _ \<Rightarrow> Raised AttributeError (Mapping (AList.delete SHARED data))))"

text \<open>
  \<open>apply_inheritance\<close> itself. \<open>resolve_fields\<close> is its first loop, over \<open>data.items()\<close>,
  which skips the \<open>_shared\<close> key and recurses into the \<open>dict\<close> values and into the \<open>dict\<close>
  elements of \<open>list\<close> values; \<open>resolve_items\<close> is the inner loop over such a \<open>list\<close>. The
  argument is annotated \<open>dict\<close>; on any other value \<open>data.items()\<close> raises
  \<open>AttributeError\<close>.
\<close>

fun apply_inheritance :: "node \<Rightarrow> outcome"
  and resolve_fields :: "(string \<times> node) list \<Rightarrow> error option \<times> (string \<times> node) list"
  and resolve_items :: "node list \<Rightarrow> error option \<times> node list"
where
  "apply_inheritance (Mapping data) =
     (case resolve_fields data of
        (Some e, data') \<Rightarrow> Raised e (Mapping data')
      | (None, data') \<Rightarrow> expand_shared data')"
| "apply_inheritance (Sequence items) = Raised AttributeError (Sequence items)"
| "apply_inheritance (Scalar s) = Raised AttributeError (Scalar s)"
| "resolve_fields [] = (None, [])"
| "resolve_fields ((key, val) # rest) =
     (if key = SHARED then
        (case resolve_fields rest of (e, rest') \<Rightarrow> (e, (key, val) # rest'))
      else
        (case val of
           Mapping d \<Rightarrow>
             (case apply_inheritance (Mapping d) of
                Returned val' \<Rightarrow>
                  (case resolve_fields rest of (e, rest') \<Rightarrow> (e, (key, val') # rest'))
              | Raised e val' \<Rightarrow> (Some e, (key, val') # rest))
         | Sequence items \<Rightarrow>
             (case resolve_items items of
                (None, items') \<Rightarrow>
                  (case resolve_fields rest of (e, rest') \<Rightarrow> (e, (key, Sequence items') # rest'))
              | (Some e, items') \<Rightarrow> (Some e, (key, Sequence items') # rest))
         | Scalar s \<Rightarrow>
             (case resolve_fields rest of (e, rest') \<Rightarrow> (e, (key, val) # rest'))))"
| "resolve_items [] = (None, [])"
| "resolve_items (item # items) =
     (case item of
        Mapping d \<Rightarrow>
          (case apply_inheritance (Mapping d) of
             Returned item' \<Rightarrow>
               (case resolve_items items of (e, items') \<Rightarrow> (e, item' # items'))
           | Raised e item' \<Rightarrow> (Some e, item' # items))
      | _ \<Rightarrow> (case resolve_items items of (e, items') \<Rightarrow> (e, item # items')))"


section \<open>The recursion of \<open>inherit_value\<close> over the path segments\<close>

text \<open>
  The two loops with the recursive call abstracted to a function \<open>f\<close>, and the body of
  \<open>inherit_value\<close> as a recursion over the list of segments that \<open>path.split(".")\<close>
  gives. \<open>inherit_value_parts\<close> below shows that \<open>inherit_value\<close> computes exactly this;
  the properties of \<open>inherit_value\<close> are then proved by induction on the segments.
\<close>

fun star_loop :: "(node \<Rightarrow> outcome) \<Rightarrow> (string \<times> node) list
      \<Rightarrow> error option \<times> (string \<times> node) list" where
  "star_loop f [] = (None, [])"
| "star_loop f ((k, v) # rest) =
     (if k \<noteq> SHARED then
        (case f v of
           Returned v' \<Rightarrow> (case star_loop f rest of (e, rest') \<Rightarrow> (e, (k, v') # rest'))
         | Raised e v' \<Rightarrow> (Some e, (k, v') # rest))
      else (case star_loop f rest of (e, rest') \<Rightarrow> (e, (k, v) # rest')))"

fun list_loop :: "(node \<Rightarrow> outcome) \<Rightarrow> string \<Rightarrow> node list \<Rightarrow> error option \<times> node list" where
  "list_loop f key [] = (None, [])"
| "list_loop f key (item # items) =
     (case item of
        Mapping d \<Rightarrow>
          (case map_of d key of
             None \<Rightarrow> (Some (KeyError key), item # items)
           | Some child \<Rightarrow>
               (case f child of
                  Returned child' \<Rightarrow>
                    (case list_loop f key items of
                       (e, items') \<Rightarrow> (e, Mapping (AList.update key child' d) # items'))
                | Raised e child' \<Rightarrow>
                    (Some e, Mapping (AList.update key child' d) # items)))
      | _ \<Rightarrow> (Some (TypeError NotSubscriptable), item # items))"

definition finish :: "(node list \<Rightarrow> node) \<Rightarrow> error option \<times> node list \<Rightarrow> outcome" where
  "finish c r = (case r of (None, xs) \<Rightarrow> Returned (c xs) | (Some e, xs) \<Rightarrow> Raised e (c xs))"

definition finish_fields ::
  "error option \<times> (string \<times> node) list \<Rightarrow> outcome" where
  "finish_fields r =
     (case r of (None, d) \<Rightarrow> Returned (Mapping d) | (Some e, d) \<Rightarrow> Raised e (Mapping d))"

definition write_back :: "string \<Rightarrow> (string \<times> node) list \<Rightarrow> outcome \<Rightarrow> outcome" where
  "write_back key d r =
     (case r of
        Returned child' \<Rightarrow> Returned (Mapping (AList.update key child' d))
      | Raised e child' \<Rightarrow> Raised e (Mapping (AList.update key child' d)))"

fun leaf :: "string \<Rightarrow> node \<Rightarrow> string \<Rightarrow> node \<Rightarrow> outcome" where
  "leaf key val prefix (Mapping d) = Returned (Mapping (setdefault d key val))"
| "leaf key val prefix (Sequence items) = finish Sequence (setdefault_items key val prefix items)"
| "leaf key val prefix (Scalar s) = Raised (make_type_error prefix key) (Scalar s)"

fun walk :: "string list \<Rightarrow> node \<Rightarrow> string \<Rightarrow> node \<Rightarrow> outcome" where
  "walk [] val prefix data = Returned data"
| "walk [key] val prefix data = leaf key val prefix data"
| "walk (key # q # qs) val prefix data =
     (if key = ''*'' then
        (case data of
           Mapping d \<Rightarrow> finish_fields (star_loop (walk (q # qs) val (prefix @ ''.'' @ key)) d)
         | _ \<Rightarrow> Raised AttributeError data)
      else
        (case data of
           Mapping d \<Rightarrow>
             (case map_of d key of
                None \<Rightarrow> Raised (KeyError key) data
              | Some child \<Rightarrow> write_back key d (walk (q # qs) val (prefix @ ''.'' @ key) child))
         | Sequence items \<Rightarrow>
             finish Sequence (list_loop (walk (q # qs) val (prefix @ ''.'' @ key)) key items)
         | Scalar s \<Rightarrow> Raised (make_type_error prefix key) data))"

definition prefix_of :: "string option \<Rightarrow> string" where
  "prefix_of opt_prefix = (case opt_prefix of None \<Rightarrow> [] | Some p \<Rightarrow> p)"

section \<open>Notions used to state the properties\<close>

text \<open>
  \<open>is_mapping\<close> is \<open>isinstance(item, dict)\<close>, \<open>has_field\<close> is \<open>key in item\<close> for a \<open>dict\<close>,
  and \<open>set_field\<close> is \<open>item.setdefault(key, value)\<close> on a \<open>dict\<close> element.
\<close>

fun is_mapping :: "node \<Rightarrow> bool" where
  "is_mapping (Mapping d) = True"
| "is_mapping (Sequence items) = False"
| "is_mapping (Scalar s) = False"


fun set_field :: "string \<Rightarrow> node \<Rightarrow> node \<Rightarrow> node" where
  "set_field key val (Mapping d) = Mapping (setdefault d key val)"
| "set_field key val (Sequence items) = Sequence items"
| "set_field key val (Scalar s) = Scalar s"


text \<open>
  A location in a tree is the list of steps that leads to it from the root: a key of a
  \<open>dict\<close> or an index of a \<open>list\<close>. \<open>get\<close> reads the value at a location, \<open>None\<close> when
  the tree has no such location.

  \<open>designates parts loc\<close> says that \<open>loc\<close> is a field the path with segments \<open>parts\<close>
  targets, following the navigation of \<open>inherit_value\<close>: a wildcard segment matches
  any key of a \<open>dict\<close> but \<open>_shared\<close>; a literal segment matches that key of a \<open>dict\<close>, or
  that key of an element of a \<open>list\<close>; the last segment is the field itself, in a \<open>dict\<close>
  or in an element of a \<open>list\<close>.
\<close>

datatype step = Field string | Index nat

fun get :: "node \<Rightarrow> step list \<Rightarrow> node option" where
  "get n [] = Some n"
| "get (Mapping d) (Field k # loc) = (case map_of d k of None \<Rightarrow> None | Some v \<Rightarrow> get v loc)"
| "get (Sequence items) (Index i # loc) = (if i < length items then get (items ! i) loc else None)"
| "get (Scalar s) (st # loc) = None"
| "get (Mapping d) (Index i # loc) = None"
| "get (Sequence items) (Field k # loc) = None"

fun designates :: "string list \<Rightarrow> step list \<Rightarrow> bool" where
  "designates [key] [Field k] = (k = key)"
| "designates [key] [Index i, Field k] = (k = key)"
| "designates (key # q # qs) (Field k # loc) =
     ((if key = ''*'' then k \<noteq> SHARED else k = key) \<and> designates (q # qs) loc)"
| "designates (key # q # qs) (Index i # Field k # loc) =
     (key \<noteq> ''*'' \<and> k = key \<and> designates (q # qs) loc)"
| "designates parts loc = False"


text \<open>
  \<open>preserved v v'\<close>: the value \<open>v'\<close> found at a location is the value \<open>v\<close> that was there
  before, up to fields added inside it: a scalar is unchanged, a \<open>dict\<close> is a \<open>dict\<close> that
  still has every key it had, a \<open>list\<close> is a \<open>list\<close> of the same length. \<open>keeps n n'\<close>: every
  location of the tree \<open>n\<close> is a location of \<open>n'\<close>, with its value preserved.
\<close>

fun preserved :: "node \<Rightarrow> node \<Rightarrow> bool" where
  "preserved (Scalar a) n = (n = Scalar a)"
| "preserved (Mapping d) (Mapping d') = (set (map fst d) \<subseteq> set (map fst d'))"
| "preserved (Sequence xs) (Sequence ys) = (length ys = length xs)"
| "preserved (Mapping d) (Scalar a) = False"
| "preserved (Mapping d) (Sequence ys) = False"
| "preserved (Sequence xs) (Scalar a) = False"
| "preserved (Sequence xs) (Mapping d') = False"

definition keeps :: "node \<Rightarrow> node \<Rightarrow> bool" where
  "keeps n n' \<longleftrightarrow> (\<forall>loc v. get n loc = Some v \<longrightarrow> (\<exists>v'. get n' loc = Some v' \<and> preserved v v'))"


text \<open>
  \<open>no_shared n\<close>: no \<open>dict\<close> anywhere in the tree \<open>n\<close> has the key \<open>_shared\<close>.
\<close>

fun no_shared :: "node \<Rightarrow> bool"
  and no_shared_fields :: "(string \<times> node) list \<Rightarrow> bool"
  and no_shared_items :: "node list \<Rightarrow> bool"
where
  "no_shared (Scalar s) = True"
| "no_shared (Mapping d) = no_shared_fields d"
| "no_shared (Sequence items) = no_shared_items items"
| "no_shared_fields [] = True"
| "no_shared_fields ((k, v) # rest) = (k \<noteq> SHARED \<and> no_shared v \<and> no_shared_fields rest)"
| "no_shared_items [] = True"
| "no_shared_items (x # xs) = (no_shared x \<and> no_shared_items xs)"






section \<open>\<open>deep_merge\<close>\<close>

text \<open>
  Modelled from the spec: \<open>configcraft/merge.py\<close>, the module of \<open>deep_merge\<close>, is not among
  the source files; only its tests are. The definition follows section 4.1 of the
  specification. Two mappings merge into a new mapping: a key of one side only keeps
  that side's subtree, a key of both sides is merged recursively under
  \<open>path + "." + key\<close>. Two sequences must have equal lengths (length-mismatch error with
  \<open>path\<close>); two empty ones give the empty sequence; otherwise every element of both must
  be a mapping ("not a mapping" error with \<open>path\<close>) and the elements are merged pairwise
  by position. Every other pair is a type-mismatch error with \<open>path\<close> and the two types.
  The specification leaves the order of the result's keys open; here the left keys
  come first, in their order, then the keys of the right side only.
\<close>

datatype kind = NoneType | BoolType | IntType | StrType | DictType | ListType

fun type_of :: "node \<Rightarrow> kind" where
  "type_of (Scalar PyNone) = NoneType"
| "type_of (Scalar (PyBool b)) = BoolType"
| "type_of (Scalar (PyInt n)) = IntType"
| "type_of (Scalar (PyStr s)) = StrType"
| "type_of (Mapping d) = DictType"
| "type_of (Sequence items) = ListType"

datatype merge_error =
    LengthMismatch string
  | NotAMapping string
  | TypeMismatch string kind kind

fun deep_merge :: "node \<Rightarrow> node \<Rightarrow> string \<Rightarrow> merge_error + node"
  and merge_fields :: "(string \<times> node) list \<Rightarrow> (string \<times> node) list \<Rightarrow> string
        \<Rightarrow> merge_error + (string \<times> node) list"
  and merge_items :: "node list \<Rightarrow> node list \<Rightarrow> string \<Rightarrow> merge_error + node list"
where
  "deep_merge (Mapping a) (Mapping b) path =
     (case merge_fields a b path of
        Inl e \<Rightarrow> Inl e
      | Inr merged \<Rightarrow> Inr (Mapping (merged @ filter (\<lambda>kv. fst kv \<notin> fst ` set a) b)))"
| "deep_merge (Sequence xs) (Sequence ys) path =
     (if length xs \<noteq> length ys then Inl (LengthMismatch path)
      else if xs = [] then Inr (Sequence [])
      else if \<not> (list_all is_mapping xs \<and> list_all is_mapping ys) then Inl (NotAMapping path)
      else (case merge_items xs ys path of
              Inl e \<Rightarrow> Inl e
            | Inr merged \<Rightarrow> Inr (Sequence merged)))"
| "deep_merge (Scalar s) right path = Inl (TypeMismatch path (type_of (Scalar s)) (type_of right))"
| "deep_merge (Mapping a) (Scalar s) path = Inl (TypeMismatch path DictType (type_of (Scalar s)))"
| "deep_merge (Mapping a) (Sequence ys) path = Inl (TypeMismatch path DictType ListType)"
| "deep_merge (Sequence xs) (Scalar s) path = Inl (TypeMismatch path ListType (type_of (Scalar s)))"
| "deep_merge (Sequence xs) (Mapping b) path = Inl (TypeMismatch path ListType DictType)"
| "merge_fields [] b path = Inr []"
| "merge_fields ((k, v) # a) b path =
     (case map_of b k of
        None \<Rightarrow>
          (case merge_fields a b path of
             Inl e \<Rightarrow> Inl e
           | Inr merged \<Rightarrow> Inr ((k, v) # merged))
      | Some w \<Rightarrow>
          (case deep_merge v w (path @ ''.'' @ k) of
             Inl e \<Rightarrow> Inl e
           | Inr u \<Rightarrow>
               (case merge_fields a b path of
                  Inl e \<Rightarrow> Inl e
                | Inr merged \<Rightarrow> Inr ((k, u) # merged))))"
| "merge_items [] ys path = Inr []"
| "merge_items (x # xs) [] path = Inr []"
| "merge_items (x # xs) (y # ys) path =
     (case deep_merge x y path of
        Inl e \<Rightarrow> Inl e
      | Inr u \<Rightarrow>
          (case merge_items xs ys path of
             Inl e \<Rightarrow> Inl e
           | Inr merged \<Rightarrow> Inr (u # merged)))"


section \<open>\<open>inherit_value\<close> computes the recursion over the segments\<close>

lemma split_join_tl:
  "split_dot s = p # q # qs \<Longrightarrow> split_dot (join_dot (q # qs)) = q # qs"
proof (induction s arbitrary: p)
  case Nil
  then show ?case by simp
next
  case (Cons c cs)
  show ?case
  proof (cases "c = CHR ''.''")
    case True
    with Cons.prems have "split_dot cs = q # qs" by simp
    with join_split_dot [of cs] show ?thesis by simp
  next
    case False
    with Cons.prems have "tl (split_dot cs) = q # qs" by simp
    then have "split_dot cs = hd (split_dot cs) # q # qs"
      using split_dot_not_Nil [of cs] by (cases "split_dot cs") auto
    then show ?thesis by (rule Cons.IH)
  qed
qed

lemma endswith_star_join:
  assumes "split_dot s = p # q # qs"
  shows "endswith_star (join_dot (q # qs)) \<longleftrightarrow> endswith_star s \<and> join_dot (q # qs) \<noteq> []"
proof -
  have "s = p @ ''.'' @ join_dot (q # qs)"
    using join_split_dot [of s] assms by simp
  then show ?thesis by (auto simp: endswith_star_def)
qed

lemma inherit_star_loop:
  "inherit_star path val d prefix = star_loop (\<lambda>v. inherit_value path val v (Some prefix)) d"
  by (induction d) (auto split: outcome.splits prod.splits)

lemma inherit_list_loop:
  "inherit_list path key val items prefix =
     list_loop (\<lambda>v. inherit_value path val v (Some prefix)) key items"
  by (induction items)
     (auto split: outcome.splits prod.splits node.splits option.splits)

lemma inherit_value_parts:
  "inherit_value path val data opt_prefix =
     (if endswith_star path then Raised ValueError data
      else walk (split_dot path) val (prefix_of opt_prefix) data)"
proof (induction path arbitrary: data opt_prefix rule: length_induct)
  case (1 path)
  show ?case
  proof (cases "endswith_star path")
    case True
    then show ?thesis by (simp add: inherit_value.simps [of path])
  next
    case star: False
    obtain p ps where sp: "split_dot path = p # ps"
      using split_dot_not_Nil [of path] by (cases "split_dot path") auto
    show ?thesis
    proof (cases ps)
      case Nil
      with star sp show ?thesis
        by (cases data)
           (simp_all add: inherit_value.simps [of path] prefix_of_def finish_def
              split: prod.splits option.splits)
    next
      case (Cons q qs)
      with sp have sp': "split_dot path = p # q # qs" by simp
      let ?rest = "join_dot (q # qs)"
      have shorter: "length ?rest < length path"
        using length_join_tl [OF sp'] .
      have no_star: "\<not> endswith_star ?rest"
        using endswith_star_join [OF sp'] star by simp
      have rec: "inherit_value ?rest val v (Some pre) = walk (q # qs) val pre v" for v pre
        using 1 [rule_format, OF shorter, of v "Some pre"] no_star split_join_tl [OF sp']
        by (simp add: prefix_of_def)
      show ?thesis
        using star sp'
        by (cases data)
           (simp_all add: inherit_value.simps [of path] prefix_of_def finish_def
              finish_fields_def write_back_def inherit_star_loop inherit_list_loop rec
              split: prod.splits option.splits outcome.splits)
    qed
  qed
qed

section \<open>Properties of \<open>inherit_value\<close>\<close>

subsection \<open>A path that ends in the wildcard\<close>

lemma last_join_dot:
  "ps \<noteq> [] \<Longrightarrow> last ps \<noteq> [] \<Longrightarrow> join_dot ps \<noteq> [] \<and> last (join_dot ps) = last (last ps)"
  by (induction ps rule: join_dot.induct) auto

lemma last_part_star: "last (split_dot path) = ''*'' \<Longrightarrow> endswith_star path"
  using last_join_dot [of "split_dot path"] split_dot_not_Nil [of path]
  by (simp add: join_split_dot endswith_star_def)


text \<open>
  Claim C7. A path whose last segment is the wildcard \<open>*\<close> makes \<open>inherit_value\<close> raise
  \<open>ValueError\<close>, whatever the value, the data and the prefix are, and \<open>data\<close> is then
  exactly as it was passed in: the check is the first statement of the function.
\<close>

theorem trailing_wildcard_rejected:
  "last (split_dot path) = ''*'' \<Longrightarrow>
     inherit_value path val data opt_prefix = Raised ValueError data"
  by (simp add: inherit_value_parts last_part_star)

theorem trailing_wildcard_rejected_witness:
  "last (split_dot ''envs.*'') = ''*'' \<and>
   inherit_value ''envs.*'' (Scalar (PyStr ''value''))
     (Mapping [(''envs'', Mapping [(''dev'', Mapping [])])]) None
   = Raised ValueError (Mapping [(''envs'', Mapping [(''dev'', Mapping [])])])"
  using trailing_wildcard_rejected [of "''envs.*''" "Scalar (PyStr ''value'')"
      "Mapping [(''envs'', Mapping [(''dev'', Mapping [])])]" None]
  by simp


subsection \<open>The one-segment loop over a list\<close>

lemma setdefault_items_mappings:
  "\<forall>x\<in>set items. is_mapping x \<Longrightarrow>
     setdefault_items key val prefix items = (None, map (set_field key val) items)"
proof (induction items)
  case Nil
  show ?case by simp
next
  case (Cons x xs)
  then show ?case by (cases x) auto
qed



text \<open>
  Claim C9. A pattern with nothing to apply to is a silent no-op: a wildcard first
  segment over the empty \<open>dict\<close>, and a one-segment path over the empty \<open>list\<close>, both
  return normally and leave \<open>data\<close> as it was.
\<close>

theorem vacuous_application:
  "\<not> endswith_star path \<Longrightarrow>
     (hd (split_dot path) = ''*'' \<and> length (split_dot path) \<noteq> 1 \<longrightarrow>
        inherit_value path val (Mapping []) opt_prefix = Returned (Mapping [])) \<and>
     (length (split_dot path) = 1 \<longrightarrow>
        inherit_value path val (Sequence []) opt_prefix = Returned (Sequence []))"
proof (cases "split_dot path")
  case Nil
  then show ?thesis using split_dot_not_Nil [of path] by simp
next
  case (Cons p ps)
  assume "\<not> endswith_star path"
  with Cons show ?thesis
    by (cases ps) (auto simp: inherit_value_parts finish_def finish_fields_def)
qed

theorem vacuous_application_witness:
  "\<not> endswith_star ''*.key'' \<and> hd (split_dot ''*.key'') = ''*'' \<and> length (split_dot ''*.key'') \<noteq> 1 \<and>
   inherit_value ''*.key'' (Scalar (PyStr ''value'')) (Mapping []) None = Returned (Mapping []) \<and>
   \<not> endswith_star ''key'' \<and> length (split_dot ''key'') = 1 \<and>
   inherit_value ''key'' (Scalar (PyStr ''value'')) (Sequence []) None = Returned (Sequence [])"
  using vacuous_application [of "''*.key''" "Scalar (PyStr ''value'')" None]
    vacuous_application [of "''key''" "Scalar (PyStr ''value'')" None]
  by (simp add: endswith_star_def)





subsection \<open>The wildcard loop\<close>

lemma star_loop_keys: "star_loop f d = (e, d') \<Longrightarrow> map fst d' = map fst d"
  by (induction d arbitrary: e d')
     (auto split: if_splits outcome.splits prod.splits)

lemma star_loop_skips:
  "star_loop f d = (e, d') \<Longrightarrow> i < length d \<Longrightarrow> fst (d ! i) = SHARED \<Longrightarrow> d' ! i = d ! i"
proof (induction d arbitrary: e d' i)
  case Nil
  then show ?case by simp
next
  case (Cons kv rest)
  then show ?case
    by (cases kv; cases i) (auto split: if_splits outcome.splits prod.splits)
qed

lemma star_loop_recurses:
  "star_loop f d = (None, d') \<Longrightarrow> i < length d \<Longrightarrow> fst (d ! i) \<noteq> SHARED \<Longrightarrow>
     f (snd (d ! i)) = Returned (snd (d' ! i))"
proof (induction d arbitrary: d' i)
  case Nil
  then show ?case by simp
next
  case (Cons kv rest)
  then show ?case
    by (cases kv; cases i) (auto split: if_splits outcome.splits prod.splits)
qed


text \<open>
  Claim C5. When the first of several segments is the wildcard and \<open>data\<close> is a \<open>dict\<close>,
  the call leaves the keys of \<open>data\<close> and their order as they were, leaves the entry
  under \<open>_shared\<close> exactly as it was, and, when it returns normally, has made the recursive
  call (with the remaining segments) on the value of every other key, each of which
  returned normally; the value now stored under such a key is what that recursive call
  left. In particular \<open>apply_inheritance\<close> turns
  \<open>{"_shared": {"*.k": "v"}, "a": {}}\<close> into \<open>{"a": {"k": "v"}}\<close>.
\<close>

theorem wildcard_skips_shared:
  assumes "\<not> endswith_star path" and "split_dot path = ''*'' # q # qs"
  shows "(\<exists>d'. state_of (inherit_value path val (Mapping d) opt_prefix) = Mapping d' \<and>
            map fst d' = map fst d \<and>
            (\<forall>i<length d. fst (d ! i) = SHARED \<longrightarrow> d' ! i = d ! i) \<and>
            (returned (inherit_value path val (Mapping d) opt_prefix) \<longrightarrow>
               (\<forall>i<length d. fst (d ! i) \<noteq> SHARED \<longrightarrow>
                  inherit_value (join_dot (q # qs)) val (snd (d ! i))
                      (Some (prefix_of opt_prefix @ ''.*''))
                    = Returned (snd (d' ! i))))) \<and>
         apply_inheritance
           (Mapping [(''_shared'', Mapping [(''*.k'', Scalar (PyStr ''v''))]), (''a'', Mapping [])])
           = Returned (Mapping [(''a'', Mapping [(''k'', Scalar (PyStr ''v''))])])"
proof
  let ?rest = "join_dot (q # qs)"
  let ?f = "\<lambda>v. inherit_value ?rest val v (Some (prefix_of opt_prefix @ ''.*''))"
  have no_star: "\<not> endswith_star ?rest"
    using endswith_star_join [OF assms(2)] assms(1) by simp
  have f: "walk (q # qs) val (prefix_of opt_prefix @ ''.*'') = ?f"
    using no_star split_join_tl [OF assms(2)]
    by (simp add: inherit_value_parts prefix_of_def fun_eq_iff)
  obtain e d' where loop: "star_loop ?f d = (e, d')"
    by (cases "star_loop ?f d") auto
  have run: "inherit_value path val (Mapping d) opt_prefix = finish_fields (e, d')"
    using assms f loop by (simp add: inherit_value_parts)
  have st: "state_of (finish_fields (e, d')) = Mapping d'"
    by (cases e) (simp_all add: finish_fields_def)
  have ret: "returned (finish_fields (e, d')) \<longleftrightarrow> e = None"
    by (cases e) (simp_all add: finish_fields_def)
  show "\<exists>d'. state_of (inherit_value path val (Mapping d) opt_prefix) = Mapping d' \<and>
            map fst d' = map fst d \<and>
            (\<forall>i<length d. fst (d ! i) = SHARED \<longrightarrow> d' ! i = d ! i) \<and>
            (returned (inherit_value path val (Mapping d) opt_prefix) \<longrightarrow>
               (\<forall>i<length d. fst (d ! i) \<noteq> SHARED \<longrightarrow> ?f (snd (d ! i)) = Returned (snd (d' ! i))))"
  proof (intro exI [of _ d'] conjI)
    show "state_of (inherit_value path val (Mapping d) opt_prefix) = Mapping d'"
      using run st by simp
    show "map fst d' = map fst d" using star_loop_keys [OF loop] .
    show "\<forall>i<length d. fst (d ! i) = SHARED \<longrightarrow> d' ! i = d ! i"
      using star_loop_skips [OF loop] by blast
    show "returned (inherit_value path val (Mapping d) opt_prefix) \<longrightarrow>
               (\<forall>i<length d. fst (d ! i) \<noteq> SHARED \<longrightarrow> ?f (snd (d ! i)) = Returned (snd (d' ! i)))"
      using run ret loop star_loop_recurses [of ?f d d'] by auto
  qed
next
  show "apply_inheritance
           (Mapping [(''_shared'', Mapping [(''*.k'', Scalar (PyStr ''v''))]), (''a'', Mapping [])])
           = Returned (Mapping [(''a'', Mapping [(''k'', Scalar (PyStr ''v''))])])"
    by (simp add: inherit_value_parts expand_shared_def SHARED_def endswith_star_def
          prefix_of_def finish_fields_def setdefault_def)
qed


theorem wildcard_skips_shared_witness:
  "\<not> endswith_star ''*.memory'' \<and> split_dot ''*.memory'' = [''*'', ''memory''] \<and>
   inherit_value ''*.memory'' (Scalar (PyInt 2))
     (Mapping [(''_shared'', Mapping [(''some'', Scalar (PyStr ''config''))]),
               (''dev'', Mapping []), (''prod'', Mapping [])]) None
   = Returned (Mapping [(''_shared'', Mapping [(''some'', Scalar (PyStr ''config''))]),
               (''dev'', Mapping [(''memory'', Scalar (PyInt 2))]),
               (''prod'', Mapping [(''memory'', Scalar (PyInt 2))])]) \<and>
   inherit_value ''memory'' (Scalar (PyInt 2)) (Mapping []) (Some ''.*'')
   = Returned (Mapping [(''memory'', Scalar (PyInt 2))])"
proof -
  have h1: "\<not> endswith_star ''*.memory''" by (simp add: endswith_star_def)
  have h2: "split_dot ''*.memory'' = ''*'' # ''memory'' # []" by simp
  have run: "inherit_value ''*.memory'' (Scalar (PyInt 2))
     (Mapping [(''_shared'', Mapping [(''some'', Scalar (PyStr ''config''))]),
               (''dev'', Mapping []), (''prod'', Mapping [])]) None
   = Returned (Mapping [(''_shared'', Mapping [(''some'', Scalar (PyStr ''config''))]),
               (''dev'', Mapping [(''memory'', Scalar (PyInt 2))]),
               (''prod'', Mapping [(''memory'', Scalar (PyInt 2))])])"
    by (simp add: inherit_value_parts endswith_star_def SHARED_def prefix_of_def
          finish_fields_def setdefault_def)
  from wildcard_skips_shared [OF h1 h2, of "Scalar (PyInt 2)"
      "[(''_shared'', Mapping [(''some'', Scalar (PyStr ''config''))]),
               (''dev'', Mapping []), (''prod'', Mapping [])]" None]
  obtain d' where
    d': "state_of (inherit_value ''*.memory'' (Scalar (PyInt 2))
     (Mapping [(''_shared'', Mapping [(''some'', Scalar (PyStr ''config''))]),
               (''dev'', Mapping []), (''prod'', Mapping [])]) None) = Mapping d'"
    and rec: "returned (inherit_value ''*.memory'' (Scalar (PyInt 2))
     (Mapping [(''_shared'', Mapping [(''some'', Scalar (PyStr ''config''))]),
               (''dev'', Mapping []), (''prod'', Mapping [])]) None) \<longrightarrow>
       (\<forall>i<length [(''_shared'', Mapping [(''some'', Scalar (PyStr ''config''))]),
               (''dev'', Mapping []), (''prod'', Mapping [])].
          fst ([(''_shared'', Mapping [(''some'', Scalar (PyStr ''config''))]),
               (''dev'', Mapping []), (''prod'', Mapping [])] ! i) \<noteq> SHARED \<longrightarrow>
          inherit_value (join_dot [''memory'']) (Scalar (PyInt 2))
             (snd ([(''_shared'', Mapping [(''some'', Scalar (PyStr ''config''))]),
               (''dev'', Mapping []), (''prod'', Mapping [])] ! i))
             (Some (prefix_of None @ ''.*'')) = Returned (snd (d' ! i)))"
    by blast
  from d' run have "d' = [(''_shared'', Mapping [(''some'', Scalar (PyStr ''config''))]),
               (''dev'', Mapping [(''memory'', Scalar (PyInt 2))]),
               (''prod'', Mapping [(''memory'', Scalar (PyInt 2))])]" by simp
  with rec [rule_format, of 1] run
  have "inherit_value ''memory'' (Scalar (PyInt 2)) (Mapping []) (Some ''.*'')
   = Returned (Mapping [(''memory'', Scalar (PyInt 2))])"
    by (simp add: SHARED_def prefix_of_def)
  with h1 h2 run show ?thesis by simp
qed

subsection \<open>The wildcard over a value that is not a \<open>dict\<close>\<close>

text \<open>
  Claim C8. The wildcard branch calls \<open>data.items()\<close> without the \<open>isinstance\<close> checks of
  the branch for a literal key, so on a \<open>list\<close> (or a scalar) the exception is the
  interpreter's \<open>AttributeError\<close>, not the \<open>TypeError\<close> of \<open>make_type_error\<close>:
  \<open>inherit_value("*.k", "v", [{"a": {}}])\<close>.
\<close>

theorem wildcard_on_list_attribute_error:
  "inherit_value ''*.k'' (Scalar (PyStr ''v'')) (Sequence [Mapping [(''a'', Mapping [])]]) None
     = Raised AttributeError (Sequence [Mapping [(''a'', Mapping [])]])"
  by (simp add: inherit_value_parts endswith_star_def)



subsection \<open>Applying the same default twice\<close>

lemma setdefault_twice: "setdefault (setdefault d k v) k v = setdefault d k v"
  by (auto simp: setdefault_def)

lemma setdefault_items_twice:
  "setdefault_items key val prefix items = (None, items') \<Longrightarrow>
     setdefault_items key val prefix items' = (None, items')"
proof (induction items arbitrary: items')
  case Nil
  then show ?case by simp
next
  case (Cons x xs)
  then show ?case
    by (cases x) (auto simp: setdefault_twice split: prod.splits)
qed

lemma star_loop_twice:
  assumes "star_loop f d = (None, d')"
    and "\<And>v v'. f v = Returned v' \<Longrightarrow> f v' = Returned v'"
  shows "star_loop f d' = (None, d')"
  using assms(1)
proof (induction d arbitrary: d')
  case Nil
  then show ?case by simp
next
  case (Cons kv rest)
  obtain k v where kv: "kv = (k, v)" by (cases kv)
  show ?case
  proof (cases "k = SHARED")
    case True
    with Cons kv show ?thesis by (auto split: prod.splits)
  next
    case False
    with Cons.prems kv obtain v' rest' where
      step: "f v = Returned v'" and tail: "star_loop f rest = (None, rest')"
      and d': "d' = (k, v') # rest'"
      by (auto split: outcome.splits prod.splits)
    from assms(2) [OF step] Cons.IH [OF tail] False d' show ?thesis by simp
  qed
qed

lemma list_loop_twice:
  assumes "list_loop f key items = (None, items')"
    and "\<And>v v'. f v = Returned v' \<Longrightarrow> f v' = Returned v'"
  shows "list_loop f key items' = (None, items')"
  using assms(1)
proof (induction items arbitrary: items')
  case Nil
  then show ?case by simp
next
  case (Cons x xs)
  from Cons.prems obtain d child child' xs' where
    x: "x = Mapping d" and child: "map_of d key = Some child"
    and step: "f child = Returned child'" and tail: "list_loop f key xs = (None, xs')"
    and items': "items' = Mapping (AList.update key child' d) # xs'"
    by (auto split: node.splits option.splits outcome.splits prod.splits)
  from assms(2) [OF step] Cons.IH [OF tail] items' show ?case
    by (simp add: AList.update_conv')
qed

lemma walk_twice:
  "walk parts val prefix data = Returned data' \<Longrightarrow> walk parts val prefix data' = Returned data'"
proof (induction parts arbitrary: prefix data data')
  case Nil
  then show ?case by simp
next
  case (Cons key ps)
  show ?case
  proof (cases ps)
    case Nil
    with Cons.prems show ?thesis
      by (cases data)
         (auto simp: setdefault_twice finish_def dest: setdefault_items_twice
            split: prod.splits option.splits)
  next
    case ps: (Cons q qs)
    let ?f = "walk (q # qs) val (prefix @ ''.'' @ key)"
    have again: "\<And>v v'. ?f v = Returned v' \<Longrightarrow> ?f v' = Returned v'"
      using Cons.IH ps by simp
    show ?thesis
    proof (cases data)
      case (Scalar s)
      with Cons.prems ps show ?thesis by (simp split: if_splits)
    next
      case (Mapping d)
      show ?thesis
      proof (cases "key = ''*''")
        case True
        with Cons.prems ps Mapping obtain d' where
          loop: "star_loop ?f d = (None, d')" and data': "data' = Mapping d'"
          by (auto simp: finish_fields_def split: prod.splits option.splits)
        from star_loop_twice [OF loop again] True ps data' show ?thesis
          by (simp add: finish_fields_def)
      next
        case False
        with Cons.prems ps Mapping obtain child child' where
          child: "map_of d key = Some child" and step: "?f child = Returned child'"
          and data': "data' = Mapping (AList.update key child' d)"
          by (auto simp: write_back_def split: option.splits outcome.splits)
        from again [OF step] False ps data' show ?thesis
          by (simp add: write_back_def AList.update_conv')
      qed
    next
      case (Sequence items)
      show ?thesis
      proof (cases "key = ''*''")
        case True
        with Cons.prems ps Sequence show ?thesis by simp
      next
        case False
        with Cons.prems ps Sequence obtain items' where
          loop: "list_loop ?f key items = (None, items')" and data': "data' = Sequence items'"
          by (auto simp: finish_def split: prod.splits option.splits)
        from list_loop_twice [OF loop again] False ps data' show ?thesis
          by (simp add: finish_def)
      qed
    qed
  qed
qed


text \<open>
  Claim C6. When \<open>inherit_value\<close> returns normally and leaves \<open>data'\<close>, the same call on
  \<open>data'\<close> returns normally as well and leaves \<open>data'\<close> as it is.
\<close>

theorem inherit_value_idempotent:
  "inherit_value path val data opt_prefix = Returned data' \<Longrightarrow>
     inherit_value path val data' opt_prefix = Returned data'"
  by (simp add: inherit_value_parts walk_twice split: if_splits)

theorem inherit_value_idempotent_witness:
  "inherit_value ''envs.*.tags.key2'' (Scalar (PyStr ''value2''))
     (Mapping [(''envs'', Mapping
        [(''dev'', Mapping [(''tags'', Sequence [Mapping [(''key1'', Scalar (PyStr ''a''))], Mapping []])]),
         (''prod'', Mapping [(''tags'', Sequence [Mapping [(''key2'', Scalar (PyStr ''b''))]])])])]) None
   = Returned
     (Mapping [(''envs'', Mapping
        [(''dev'', Mapping [(''tags'', Sequence
            [Mapping [(''key1'', Scalar (PyStr ''a'')), (''key2'', Scalar (PyStr ''value2''))],
             Mapping [(''key2'', Scalar (PyStr ''value2''))]])]),
         (''prod'', Mapping [(''tags'', Sequence [Mapping [(''key2'', Scalar (PyStr ''b''))]])])])]) \<and>
   inherit_value ''envs.*.tags.key2'' (Scalar (PyStr ''value2''))
     (Mapping [(''envs'', Mapping
        [(''dev'', Mapping [(''tags'', Sequence
            [Mapping [(''key1'', Scalar (PyStr ''a'')), (''key2'', Scalar (PyStr ''value2''))],
             Mapping [(''key2'', Scalar (PyStr ''value2''))]])]),
         (''prod'', Mapping [(''tags'', Sequence [Mapping [(''key2'', Scalar (PyStr ''b''))]])])])]) None
   = Returned
     (Mapping [(''envs'', Mapping
        [(''dev'', Mapping [(''tags'', Sequence
            [Mapping [(''key1'', Scalar (PyStr ''a'')), (''key2'', Scalar (PyStr ''value2''))],
             Mapping [(''key2'', Scalar (PyStr ''value2''))]])]),
         (''prod'', Mapping [(''tags'', Sequence [Mapping [(''key2'', Scalar (PyStr ''b''))]])])])])"
proof -
  have first: "inherit_value ''envs.*.tags.key2'' (Scalar (PyStr ''value2''))
     (Mapping [(''envs'', Mapping
        [(''dev'', Mapping [(''tags'', Sequence [Mapping [(''key1'', Scalar (PyStr ''a''))], Mapping []])]),
         (''prod'', Mapping [(''tags'', Sequence [Mapping [(''key2'', Scalar (PyStr ''b''))]])])])]) None
   = Returned
     (Mapping [(''envs'', Mapping
        [(''dev'', Mapping [(''tags'', Sequence
            [Mapping [(''key1'', Scalar (PyStr ''a'')), (''key2'', Scalar (PyStr ''value2''))],
             Mapping [(''key2'', Scalar (PyStr ''value2''))]])]),
         (''prod'', Mapping [(''tags'', Sequence [Mapping [(''key2'', Scalar (PyStr ''b''))]])])])])"
    by (simp add: inherit_value_parts endswith_star_def SHARED_def prefix_of_def
          finish_fields_def finish_def write_back_def setdefault_def)
  from first inherit_value_idempotent [OF first] show ?thesis by simp
qed


subsection \<open>Existing fields are not overwritten\<close>

lemma setdefault_items_pointwise:
  "setdefault_items key val prefix items = (e, items') \<Longrightarrow>
     list_all2 (\<lambda>x x'. x' = x \<or> x' = set_field key val x) items items'"
proof (induction items arbitrary: e items')
  case Nil
  then show ?case by simp
next
  case (Cons x xs)
  then show ?case
    by (cases x) (auto split: prod.splits intro: list_all2_refl)
qed

lemma star_loop_pointwise:
  "star_loop f d = (e, d') \<Longrightarrow>
     list_all2 (\<lambda>kv kv'. fst kv' = fst kv \<and>
        (snd kv' = snd kv \<or> fst kv \<noteq> SHARED \<and> snd kv' = state_of (f (snd kv)))) d d'"
proof (induction d arbitrary: e d')
  case Nil
  then show ?case by simp
next
  case (Cons kv rest)
  then show ?case
    by (cases kv) (auto split: if_splits outcome.splits prod.splits intro: list_all2_refl)
qed

lemma list_loop_pointwise:
  "list_loop f key items = (e, items') \<Longrightarrow>
     list_all2 (\<lambda>x x'. x' = x \<or>
        (\<exists>d c. x = Mapping d \<and> map_of d key = Some c \<and>
               x' = Mapping (AList.update key (state_of (f c)) d))) items items'"
proof (induction items arbitrary: e items')
  case Nil
  then show ?case by simp
next
  case (Cons x xs)
  then show ?case
    by (cases x)
       (auto split: option.splits outcome.splits prod.splits intro: list_all2_refl)
qed

lemma map_of_pointwise:
  "list_all2 (\<lambda>kv kv'. fst kv' = fst kv \<and> R (fst kv) (snd kv) (snd kv')) d d' \<Longrightarrow>
     map_of d k = Some c \<Longrightarrow> \<exists>c'. map_of d' k = Some c' \<and> R k c c'"
  by (induction d d' rule: list_all2_induct) (auto split: if_splits)

lemma designates_leaf:
  "designates [key] loc \<longleftrightarrow> loc = [Field key] \<or> (\<exists>i. loc = [Index i, Field key])"
  by (cases "([key], loc)" rule: designates.cases) auto

lemma designates_more:
  "designates (key # q # qs) loc \<longleftrightarrow>
     (\<exists>k loc'. loc = Field k # loc' \<and> (if key = ''*'' then k \<noteq> SHARED else k = key) \<and>
        designates (q # qs) loc') \<or>
     (\<exists>i loc'. loc = Index i # Field key # loc' \<and> key \<noteq> ''*'' \<and> designates (q # qs) loc')"
  by (cases "(key # q # qs, loc)" rule: designates.cases) auto

lemma walk_keeps_target:
  "designates parts loc \<Longrightarrow> get data loc = Some v \<Longrightarrow>
     get (state_of (walk parts val prefix data)) loc = Some v"
proof (induction parts arbitrary: loc data prefix)
  case Nil
  then show ?case by simp
next
  case (Cons key ps)
  show ?case
  proof (cases ps)
    case Nil
    show ?thesis
    proof (cases data)
      case (Scalar s)
      with Cons.prems Nil show ?thesis by simp
    next
      case (Mapping d)
      from Cons.prems Nil Mapping have loc: "loc = [Field key]"
        by (auto simp: designates_leaf)
      with Cons.prems Mapping have "map_of d key = Some v" by (auto split: option.splits)
      then have "key \<in> fst ` set d" by (force dest: map_of_SomeD)
      then have "setdefault d key val = d" by (simp add: setdefault_def)
      with Nil Mapping Cons.prems show ?thesis by simp
    next
      case (Sequence items)
      from Cons.prems Nil Sequence obtain i where loc: "loc = [Index i, Field key]"
        by (auto simp: designates_leaf)
      with Cons.prems Sequence obtain d where
        i: "i < length items" and d: "items ! i = Mapping d" and v: "map_of d key = Some v"
        by (cases "items ! i") (auto split: if_splits option.splits)
      obtain e items' where run: "setdefault_items key val prefix items = (e, items')"
        by (cases "setdefault_items key val prefix items") auto
      from v have "key \<in> fst ` set d" by (force dest: map_of_SomeD)
      then have same: "set_field key val (items ! i) = items ! i"
        using d by (simp add: setdefault_def)
      from setdefault_items_pointwise [OF run] i same
      have "length items' = length items" "items' ! i = items ! i"
        by (auto simp: list_all2_conv_all_nth)
      moreover have "state_of (walk (key # ps) val prefix data) = Sequence items'"
        using Nil Sequence run by (cases e) (simp_all add: finish_def)
      ultimately show ?thesis using loc i d v by simp
    qed
  next
    case ps: (Cons q qs)
    let ?f = "walk (q # qs) val (prefix @ ''.'' @ key)"
    have ih: "\<And>loc c. designates (q # qs) loc \<Longrightarrow> get c loc = Some v \<Longrightarrow>
                get (state_of (?f c)) loc = Some v"
      using Cons.IH ps by simp
    show ?thesis
    proof (cases data)
      case (Scalar s)
      with Cons.prems ps show ?thesis by (cases loc) auto
    next
      case (Mapping d)
      from Cons.prems ps Mapping obtain k loc' where
        loc: "loc = Field k # loc'" and des: "designates (q # qs) loc'"
        and k: "if key = ''*'' then k \<noteq> SHARED else k = key"
        by (auto simp: designates_more)
      from Cons.prems loc Mapping obtain c where
        c: "map_of d k = Some c" and cv: "get c loc' = Some v"
        by (auto split: option.splits)
      show ?thesis
      proof (cases "key = ''*''")
        case True
        obtain e d' where run: "star_loop ?f d = (e, d')"
          by (cases "star_loop ?f d") auto
        from map_of_pointwise [OF star_loop_pointwise [OF run] c]
        obtain c' where c': "map_of d' k = Some c'"
          and alt: "c' = c \<or> k \<noteq> SHARED \<and> c' = state_of (?f c)" by blast
        from alt cv ih [OF des cv] have "get c' loc' = Some v" by auto
        moreover have "state_of (walk (key # ps) val prefix data) = Mapping d'"
          using True ps Mapping run by (cases e) (simp_all add: finish_fields_def)
        ultimately show ?thesis using loc c' by simp
      next
        case False
        with k have kk: "k = key" by simp
        have "state_of (walk (key # ps) val prefix data)
                = Mapping (AList.update key (state_of (?f c)) d)"
          using False ps Mapping c kk
          by (cases "?f c") (simp_all add: write_back_def)
        with loc kk ih [OF des cv] show ?thesis by (simp add: AList.update_conv')
      qed
    next
      case (Sequence items)
      from Cons.prems ps Sequence obtain i loc' where
        loc: "loc = Index i # Field key # loc'" and des: "designates (q # qs) loc'"
        and lit: "key \<noteq> ''*''"
        by (auto simp: designates_more)
      from Cons.prems loc Sequence obtain d c where
        i: "i < length items" and d: "items ! i = Mapping d"
        and c: "map_of d key = Some c" and cv: "get c loc' = Some v"
        by (cases "items ! i") (auto split: if_splits option.splits)
      obtain e items' where run: "list_loop ?f key items = (e, items')"
        by (cases "list_loop ?f key items") auto
      from list_loop_pointwise [OF run] i
      have len: "length items' = length items"
        and alt: "items' ! i = items ! i \<or>
          (\<exists>d c. items ! i = Mapping d \<and> map_of d key = Some c \<and>
               items' ! i = Mapping (AList.update key (state_of (?f c)) d))"
        by (auto simp: list_all2_conv_all_nth)
      from alt d c cv ih [OF des cv]
      have "get (items' ! i) (Field key # loc') = Some v"
        by (auto simp: AList.update_conv')
      moreover have "state_of (walk (key # ps) val prefix data) = Sequence items'"
        using lit ps Sequence run by (cases e) (simp_all add: finish_def)
      ultimately show ?thesis using loc i len by simp
    qed
  qed
qed


text \<open>
  Claim C1. Whatever the path, the default value and the tree are: a field that the
  path targets and that already holds a value \<open>v\<close> still holds \<open>v\<close> when the call ends,
  whether it returns or raises, also when the field is reached through wildcards or
  through the elements of a \<open>list\<close>.
\<close>

theorem inherit_value_keeps_existing:
  "designates (split_dot path) loc \<Longrightarrow> get data loc = Some v \<Longrightarrow>
     get (state_of (inherit_value path val data opt_prefix)) loc = Some v"
  by (simp add: inherit_value_parts walk_keeps_target)

theorem inherit_value_keeps_existing_witness:
  "designates (split_dot ''*.servers.cpu'')
     [Field ''dev'', Field ''servers'', Index 0, Field ''cpu''] \<and>
   get (Mapping [(''dev'', Mapping [(''servers'',
          Sequence [Mapping [(''cpu'', Scalar (PyInt 4))], Mapping []])])])
     [Field ''dev'', Field ''servers'', Index 0, Field ''cpu''] = Some (Scalar (PyInt 4)) \<and>
   inherit_value ''*.servers.cpu'' (Scalar (PyInt 1))
     (Mapping [(''dev'', Mapping [(''servers'',
          Sequence [Mapping [(''cpu'', Scalar (PyInt 4))], Mapping []])])]) None
   = Returned (Mapping [(''dev'', Mapping [(''servers'',
          Sequence [Mapping [(''cpu'', Scalar (PyInt 4))],
                    Mapping [(''cpu'', Scalar (PyInt 1))]])])]) \<and>
   get (state_of (inherit_value ''*.servers.cpu'' (Scalar (PyInt 1))
     (Mapping [(''dev'', Mapping [(''servers'',
          Sequence [Mapping [(''cpu'', Scalar (PyInt 4))], Mapping []])])]) None))
     [Field ''dev'', Field ''servers'', Index 0, Field ''cpu''] = Some (Scalar (PyInt 4))"
proof -
  let ?data = "Mapping [(''dev'', Mapping [(''servers'',
          Sequence [Mapping [(''cpu'', Scalar (PyInt 4))], Mapping []])])]"
  let ?loc = "[Field ''dev'', Field ''servers'', Index 0, Field ''cpu'']"
  have h1: "designates (split_dot ''*.servers.cpu'') ?loc" by (simp add: SHARED_def)
  have h2: "get ?data ?loc = Some (Scalar (PyInt 4))" by simp
  have run: "inherit_value ''*.servers.cpu'' (Scalar (PyInt 1)) ?data None
     = Returned (Mapping [(''dev'', Mapping [(''servers'',
          Sequence [Mapping [(''cpu'', Scalar (PyInt 4))],
                    Mapping [(''cpu'', Scalar (PyInt 1))]])])])"
    by (simp add: inherit_value_parts endswith_star_def SHARED_def prefix_of_def
          finish_fields_def finish_def write_back_def setdefault_def)
  from h1 h2 run inherit_value_keeps_existing [OF h1 h2, of "Scalar (PyInt 1)" None]
  show ?thesis by (intro conjI)
qed


subsection \<open>Absent target fields are filled\<close>

text \<open>
  The locations that \<open>designates\<close> names are the ones \<open>inherit_value\<close> writes: when the
  call returns normally, a targeted field that was absent from an existing \<open>dict\<close> holds
  the default afterwards.
\<close>

lemma setdefault_items_done:
  "setdefault_items key val prefix items = (None, items') \<Longrightarrow> i < length items \<Longrightarrow>
     \<exists>d. items ! i = Mapping d \<and> items' ! i = Mapping (setdefault d key val)"
proof (induction items arbitrary: items' i)
  case Nil
  then show ?case by simp
next
  case (Cons x xs)
  then show ?case
    by (cases x; cases i) (auto split: prod.splits)
qed

lemma star_loop_done:
  "star_loop f d = (None, d') \<Longrightarrow> map_of d k = Some c \<Longrightarrow> k \<noteq> SHARED \<Longrightarrow>
     \<exists>c'. map_of d' k = Some c' \<and> f c = Returned c'"
proof (induction d arbitrary: d')
  case Nil
  then show ?case by simp
next
  case (Cons kv rest)
  then show ?case
    by (cases kv) (auto split: if_splits outcome.splits prod.splits)
qed

lemma list_loop_done:
  "list_loop f key items = (None, items') \<Longrightarrow> i < length items \<Longrightarrow>
     \<exists>d c c'. items ! i = Mapping d \<and> map_of d key = Some c \<and> f c = Returned c' \<and>
        items' ! i = Mapping (AList.update key c' d)"
proof (induction items arbitrary: items' i)
  case Nil
  then show ?case by simp
next
  case (Cons x xs)
  then show ?case
    by (cases x; cases i)
       (auto split: option.splits outcome.splits prod.splits)
qed

lemma map_of_setdefault_new:
  "k \<notin> fst ` set d \<Longrightarrow> map_of (setdefault d k v) k = Some v"
proof -
  assume new: "k \<notin> fst ` set d"
  then have "map_of d k = None" by (simp add: map_of_eq_None_iff)
  with new show ?thesis by (simp add: setdefault_def map_add_def)
qed

lemma walk_fills_target:
  "walk parts val prefix data = Returned data' \<Longrightarrow> designates parts (pre @ [Field k]) \<Longrightarrow>
     get data pre = Some (Mapping d) \<Longrightarrow> k \<notin> fst ` set d \<Longrightarrow>
     get data' (pre @ [Field k]) = Some val"
proof (induction parts arbitrary: pre data data' prefix)
  case Nil
  then show ?case by simp
next
  case (Cons key ps)
  show ?case
  proof (cases ps)
    case Nil
    from Cons.prems(2) Nil have alt: "pre = [] \<and> k = key \<or> (\<exists>i. pre = [Index i] \<and> k = key)"
      by (auto simp: designates_leaf append_eq_Cons_conv)
    then show ?thesis
    proof (elim disjE exE conjE)
      assume pre: "pre = []" and k: "k = key"
      with Cons.prems Nil show ?thesis
        by (auto simp: map_of_setdefault_new)
    next
      fix i assume pre: "pre = [Index i]" and k: "k = key"
      with Cons.prems(3) obtain items where data: "data = Sequence items"
        and i: "i < length items" and d: "items ! i = Mapping d"
        by (cases data) (auto split: if_splits)
      from Cons.prems(1) Nil data obtain items' where
        run: "setdefault_items key val prefix items = (None, items')"
        and data': "data' = Sequence items'"
        by (auto simp: finish_def split: prod.splits option.splits)
      from setdefault_items_done [OF run i] d
      have "items' ! i = Mapping (setdefault d key val)" by simp
      moreover have "length items' = length items"
        using setdefault_items_pointwise [OF run] by (simp add: list_all2_lengthD)
      ultimately show ?thesis
        using pre k data' i Cons.prems(4) by (simp add: map_of_setdefault_new)
    qed
  next
    case ps: (Cons q qs)
    let ?f = "walk (q # qs) val (prefix @ ''.'' @ key)"
    from Cons.prems(2) ps have
      alt: "(\<exists>k' loc'. pre @ [Field k] = Field k' # loc' \<and>
               (if key = ''*'' then k' \<noteq> SHARED else k' = key) \<and> designates (q # qs) loc') \<or>
            (\<exists>i loc'. pre @ [Field k] = Index i # Field key # loc' \<and> key \<noteq> ''*'' \<and>
               designates (q # qs) loc')"
      by (simp add: designates_more)
    have nonempty: "\<not> designates (q # qs) []" by simp
    from alt show ?thesis
    proof (elim disjE exE conjE)
      fix k' loc'
      assume eq: "pre @ [Field k] = Field k' # loc'"
        and k': "if key = ''*'' then k' \<noteq> SHARED else k' = key"
        and des: "designates (q # qs) loc'"
      from eq des nonempty obtain pre' where pre: "pre = Field k' # pre'"
        and loc': "loc' = pre' @ [Field k]"
        by (cases pre) auto
      from Cons.prems(3) pre obtain dd c where data: "data = Mapping dd"
        and c: "map_of dd k' = Some c" and gc: "get c pre' = Some (Mapping d)"
        by (cases data) (auto split: option.splits)
      show ?thesis
      proof (cases "key = ''*''")
        case True
        from Cons.prems(1) ps data True obtain dd' where
          run: "star_loop ?f dd = (None, dd')" and data': "data' = Mapping dd'"
          by (auto simp: finish_fields_def split: prod.splits option.splits)
        from k' True have "k' \<noteq> SHARED" by simp
        from star_loop_done [OF run c this] obtain c' where
          c': "map_of dd' k' = Some c'" and step: "?f c = Returned c'" by blast
        from Cons.IH [of "prefix @ ''.'' @ key" c c' pre'] ps step des loc' gc Cons.prems(4)
        have "get c' (pre' @ [Field k]) = Some val" by simp
        with pre data' c' show ?thesis by simp
      next
        case False
        with k' have kk: "k' = key" by simp
        from Cons.prems(1) ps data False c kk obtain c' where
          step: "?f c = Returned c'" and data': "data' = Mapping (AList.update key c' dd)"
          by (auto simp: write_back_def split: outcome.splits)
        from Cons.IH [of "prefix @ ''.'' @ key" c c' pre'] ps step des loc' gc Cons.prems(4)
        have "get c' (pre' @ [Field k]) = Some val" by simp
        with pre data' kk show ?thesis by (simp add: AList.update_conv')
      qed
    next
      fix i loc'
      assume eq: "pre @ [Field k] = Index i # Field key # loc'"
        and lit: "key \<noteq> ''*''" and des: "designates (q # qs) loc'"
      from eq des nonempty obtain pre' where pre: "pre = Index i # Field key # pre'"
        and loc': "loc' = pre' @ [Field k]"
        by (cases pre; cases "tl pre") auto
      from Cons.prems(3) pre obtain items where data: "data = Sequence items"
        and i: "i < length items" and gi: "get (items ! i) (Field key # pre') = Some (Mapping d)"
        by (cases data) (auto split: if_splits)
      from Cons.prems(1) ps data lit obtain items' where
        run: "list_loop ?f key items = (None, items')" and data': "data' = Sequence items'"
        by (auto simp: finish_def split: prod.splits option.splits)
      from list_loop_done [OF run i] obtain dd c c' where
        dd: "items ! i = Mapping dd" and c: "map_of dd key = Some c"
        and step: "?f c = Returned c'"
        and new: "items' ! i = Mapping (AList.update key c' dd)" by blast
      from gi dd c have gc: "get c pre' = Some (Mapping d)" by simp
      from Cons.IH [of "prefix @ ''.'' @ key" c c' pre'] ps step des loc' gc Cons.prems(4)
      have "get c' (pre' @ [Field k]) = Some val" by simp
      moreover have "length items' = length items"
        using list_loop_pointwise [OF run] by (simp add: list_all2_lengthD)
      ultimately show ?thesis
        using pre data' i new by (simp add: AList.update_conv')
    qed
  qed
qed

lemma inherit_value_fills_absent:
  "inherit_value path val data opt_prefix = Returned data' \<Longrightarrow>
     designates (split_dot path) (pre @ [Field k]) \<Longrightarrow>
     get data pre = Some (Mapping d) \<Longrightarrow> k \<notin> fst ` set d \<Longrightarrow>
     get data' (pre @ [Field k]) = Some val"
  by (auto simp: inherit_value_parts split: if_splits intro: walk_fills_target)


section \<open>Properties of \<open>apply_inheritance\<close>\<close>

subsection \<open>Nothing that is present is removed or replaced\<close>

lemma preserved_refl: "preserved n n"
  by (cases n) auto


lemma keeps_refl: "keeps n n"
  by (auto simp: keeps_def preserved_refl)


lemma keeps_Scalar: "keeps (Scalar a) n \<longleftrightarrow> n = Scalar a"
proof
  assume "keeps (Scalar a) n"
  then have "\<exists>v'. get n [] = Some v' \<and> preserved (Scalar a) v'"
    unfolding keeps_def by (metis get.simps(1))
  then show "n = Scalar a" by simp
next
  assume "n = Scalar a"
  then show "keeps (Scalar a) n" by (simp add: keeps_refl)
qed














subsection \<open>Removal of the \<open>_shared\<close> sections\<close>


lemma no_shared_items_iff: "no_shared_items xs \<longleftrightarrow> (\<forall>x\<in>set xs. no_shared x)"
  by (induction xs) auto
















text \<open>
  The same happens to a \<open>_shared\<close> key below a \<open>list\<close> nested in a \<open>list\<close>, which the
  traversal does not enter, and to a path whose last segment is \<open>_shared\<close>, which writes
  the key back after the section was popped.
\<close>

lemma shared_section_in_nested_list_survives:
  "apply_inheritance (Mapping [(''a'', Sequence [Sequence [Mapping [(''_shared'', Mapping [])]]])])
   = Returned (Mapping [(''a'', Sequence [Sequence [Mapping [(''_shared'', Mapping [])]]])])"
  by code_simp

lemma path_to_shared_key_writes_it:
  "apply_inheritance (Mapping [(''_shared'', Mapping [(''*._shared'', Scalar (PyInt 1))]),
                               (''a'', Mapping [])])
   = Returned (Mapping [(''a'', Mapping [(''_shared'', Scalar (PyInt 1))])])"
  by code_simp




section \<open>Properties of \<open>deep_merge\<close>\<close>

lemma merge_fields_disjoint:
  "fst ` set a \<inter> fst ` set b = {} \<Longrightarrow> merge_fields a b path = Inr a"
proof (induction a)
  case Nil
  show ?case by simp
next
  case (Cons kv a)
  obtain k v where kv: "kv = (k, v)" by (cases kv)
  with Cons.prems have "k \<notin> fst ` set b" by auto
  then have "map_of b k = None" by (simp add: map_of_eq_None_iff)
  moreover from Cons have "merge_fields a b path = Inr a" by auto
  ultimately show ?case using kv by simp
qed


text \<open>
  Claim C4. For two mappings with disjoint key sets \<open>deep_merge\<close> succeeds; the keys of
  the result are the keys of the two inputs together, and every key has the value it
  had in the input that contained it.
\<close>

theorem deep_merge_disjoint:
  assumes "fst ` set a \<inter> fst ` set b = {}"
  shows "\<exists>r. deep_merge (Mapping a) (Mapping b) path = Inr (Mapping r) \<and>
           fst ` set r = fst ` set a \<union> fst ` set b \<and>
           (\<forall>k v. map_of a k = Some v \<longrightarrow> map_of r k = Some v) \<and>
           (\<forall>k v. map_of b k = Some v \<longrightarrow> map_of r k = Some v)"
proof (intro exI [of _ "a @ b"] conjI allI impI)
  have "filter (\<lambda>kv. fst kv \<notin> fst ` set a) b = b"
    using assms by (auto simp: filter_id_conv)
  then show "deep_merge (Mapping a) (Mapping b) path = Inr (Mapping (a @ b))"
    using merge_fields_disjoint [OF assms] by simp
next
  show "fst ` set (a @ b) = fst ` set a \<union> fst ` set b" by auto
next
  fix k v assume "map_of a k = Some v"
  then show "map_of (a @ b) k = Some v" by simp
next
  fix k v assume kb: "map_of b k = Some v"
  then have "k \<in> fst ` set b" by (force dest: map_of_SomeD)
  with assms have "k \<notin> fst ` set a" by auto
  then have "map_of a k = None" by (simp add: map_of_eq_None_iff)
  with kb show "map_of (a @ b) k = Some v" by (simp add: map_add_def)
qed

theorem deep_merge_disjoint_witness:
  "fst ` set [(''dev'', Mapping [(''username'', Scalar (PyStr ''dev.user''))])]
     \<inter> fst ` set [(''prod'', Mapping [(''username'', Scalar (PyStr ''prod.user''))])] = {} \<and>
   deep_merge (Mapping [(''dev'', Mapping [(''username'', Scalar (PyStr ''dev.user''))])])
              (Mapping [(''prod'', Mapping [(''username'', Scalar (PyStr ''prod.user''))])]) []
   = Inr (Mapping [(''dev'', Mapping [(''username'', Scalar (PyStr ''dev.user''))]),
                   (''prod'', Mapping [(''username'', Scalar (PyStr ''prod.user''))])])"
proof -
  have h: "fst ` set [(''dev'', Mapping [(''username'', Scalar (PyStr ''dev.user''))])]
     \<inter> fst ` set [(''prod'', Mapping [(''username'', Scalar (PyStr ''prod.user''))])] = {}"
    by simp
  from deep_merge_disjoint [OF h, of "[]"] h show ?thesis by auto
qed

end
